theory Spec2Isabelle
  imports Complex_Main "HOL-Library.Sublist"
begin

section \<open>Python strings\<close>

text \<open>
  A Python \<open>str\<close> is a sequence of Unicode code points and \<open>len\<close> counts code points,
  so a string is a list of code points. \<open>str\<close> reads a literal of the source.
\<close>

type_synonym pychar = nat
type_synonym pystr = "pychar list"

definition str :: "string \<Rightarrow> pystr" where
  "str s = map of_char s"

text \<open>
  \<open>str.isspace\<close> for one code point, as \<open>str.split()\<close> without a separator uses it:
  the code points whose bidirectional class is WS, B or S, or whose category is Zs.
\<close>

definition isspace :: "pychar \<Rightarrow> bool" where
  "isspace c = ((9 \<le> c \<and> c \<le> 13) \<or> (28 \<le> c \<and> c \<le> 32) \<or> c = 133 \<or> c = 160
      \<or> c = 5760 \<or> (8192 \<le> c \<and> c \<le> 8202) \<or> c = 8232 \<or> c = 8233
      \<or> c = 8239 \<or> c = 8287 \<or> c = 12288)"

text \<open>
  \<open>text.split()\<close>: the maximal runs of characters that are not whitespace, in order.
  \<open>split_from w cs\<close> scans \<open>cs\<close> with \<open>w\<close> the run read so far.
\<close>

fun split_from :: "pystr \<Rightarrow> pystr \<Rightarrow> pystr list" where
  "split_from w [] = (if w = [] then [] else [w])"
| "split_from w (c # cs) =
     (if isspace c then (if w = [] then split_from [] cs else w # split_from [] cs)
      else split_from (w @ [c]) cs)"

definition split :: "pystr \<Rightarrow> pystr list" where
  "split text = split_from [] text"

text \<open>\<open>sep.join(xs)\<close> for a list of strings.\<close>

fun join :: "pystr \<Rightarrow> pystr list \<Rightarrow> pystr" where
  "join sep [] = []"
| "join sep [x] = x"
| "join sep (x # y # ys) = x @ sep @ join sep (y # ys)"

text \<open>
  \<open>s.replace(old, new)\<close>: one scan from the left; each occurrence of \<open>old\<close> found is
  replaced and the scan goes on after it, so occurrences do not overlap and the text
  produced is not scanned again. With \<open>old\<close> empty, \<open>new\<close> goes before every character
  and at the end.
\<close>

function replace :: "pystr \<Rightarrow> pystr \<Rightarrow> pystr \<Rightarrow> pystr" where
  "replace s [] new = new @ concat (map (\<lambda>c. c # new) s)"
| "replace [] (a # old) new = []"
| "replace (c # cs) (a # old) new =
     (if prefix (a # old) (c # cs)
      then new @ replace (drop (length (a # old)) (c # cs)) (a # old) new
      else c # replace cs (a # old) new)"
  by pat_completeness auto
termination
  by (relation "measure (\<lambda>(s, old, new). length s)") auto

text \<open>\<open>sub in s\<close> for strings.\<close>

fun contains :: "pystr \<Rightarrow> pystr \<Rightarrow> bool" where
  "contains sub [] = (sub = [])"
| "contains sub (c # cs) = (prefix sub (c # cs) \<or> contains sub cs)"

section \<open>Workshop 11: the transcript cleaner\<close>

definition Music :: pystr where
  "Music = str ''[Music]''"

definition Applause :: pystr where
  "Applause = str ''[Applause]''"

definition clean_transcript :: "pystr \<Rightarrow> pystr" where
  "clean_transcript text =
     (let text = join (str '' '') (split text);
          text = replace text Music [];
          text = replace text Applause []
      in take 4000 text)"

text \<open>
  The condition under which the cleaner removes every marker: nowhere in the text is a
  marker directly preceded by the beginning of a marker, that is by a proper prefix of
  \<open>[Music]\<close> or \<open>[Applause]\<close> that is not empty, such as \<open>[Mu\<close>.
\<close>

definition markers :: "pystr list" where
  "markers = [Music, Applause]"

definition openings :: "pystr list" where
  "openings = concat (map (\<lambda>m. map (\<lambda>k. take k m) [1 ..< length m]) markers)"

definition unnested :: "pystr \<Rightarrow> bool" where
  "unnested text = (\<forall>x \<in> set openings. \<forall>m \<in> set markers. \<not> contains (x @ m) text)"

section \<open>Exceptions and values of the libraries\<close>

text \<open>
  An exception instance, as far as the scripts look at it: whether its class derives
  from \<open>Exception\<close> (\<open>KeyboardInterrupt\<close>, \<open>SystemExit\<close> and \<open>GeneratorExit\<close> derive
  from \<open>BaseException\<close> only), the name of its class and its string form \<open>str(e)\<close>. A
  call that may raise returns \<open>Inl e\<close> when it raises \<open>e\<close>. Every handler of the
  scripts is \<open>except Exception as e\<close>: it catches \<open>e\<close> when \<open>is_Exception e\<close> holds
  and lets it pass otherwise.
\<close>

datatype exn = Exn (is_Exception: bool) (exn_class: pystr) (exn_str: pystr)

text \<open>Decimal digits of a natural number, for the messages that quote an index.\<close>

fun show_nat :: "nat \<Rightarrow> pystr" where
  "show_nat n = (if n < 10 then [48 + n] else show_nat (n div 10) @ [48 + n mod 10])"

text \<open>
  \<open>xs[i]\<close> on a Python list: the index must fit the signed 64-bit index type, and a
  negative index counts from the end.
\<close>

definition list_index :: "'a list \<Rightarrow> int \<Rightarrow> exn + 'a" where
  "list_index xs i =
     (if i < - (2 ^ 63) \<or> 2 ^ 63 \<le> i
      then Inl (Exn True (str ''IndexError'')
             (str ''cannot fit '' @ [39] @ str ''int'' @ [39]
                @ str '' into an index-sized integer''))
      else if 0 \<le> i \<and> i < int (length xs) then Inr (xs ! nat i)
      else if i < 0 \<and> - int (length xs) \<le> i then Inr (xs ! nat (int (length xs) + i))
      else Inl (Exn True (str ''IndexError'') (str ''list index out of range'')))"

text \<open>\<open>a[0]\<close> on a one-dimensional numpy array.\<close>

definition array_first :: "'a list \<Rightarrow> exn + 'a" where
  "array_first a =
     (case a of
        [] \<Rightarrow> Inl (Exn True (str ''IndexError'')
                 (str ''index 0 is out of bounds for axis 0 with size 0''))
      | x # _ \<Rightarrow> Inr x)"

text \<open>
  A pandas DataFrame: row labels, column labels and the rows of values. \<open>head k\<close> keeps
  the first \<open>k\<close> rows, \<open>.T\<close> transposes.
\<close>

datatype label = Name pystr | Pos int

record 'f DataFrame =
  index :: "label list"
  columns :: "label list"
  rows :: "'f list list"

definition head :: "nat \<Rightarrow> 'f DataFrame \<Rightarrow> 'f DataFrame" where
  "head k df = df\<lparr>index := take k (index df), rows := take k (rows df)\<rparr>"

definition T :: "'f DataFrame \<Rightarrow> 'f DataFrame" where
  "T df = \<lparr>index = columns df, columns = index df,
            rows = map (\<lambda>j. map (\<lambda>r. r ! j) (rows df)) [0 ..< length (columns df)]\<rparr>"

text \<open>What a Streamlit script shows, in order.\<close>

datatype 'f ui =
    Title pystr | Markdown pystr | Header pystr | Subheader pystr
  | Write pystr | WriteFrame "'f DataFrame" | BarChart "'f DataFrame"
  | Error pystr | Info pystr | Success pystr | Expander pystr

section \<open>Workshop 11: loading a transcript and asking about it\<close>

text \<open>
  The library calls of the script are parameters: \<open>urlparse\<close> and \<open>parse_qs\<close> of
  \<open>urllib.parse\<close>, \<open>YouTubeTranscriptApi.get_transcript\<close>, \<open>chain.invoke\<close> of the
  prompt chain and \<open>str.lower\<close>. Of the result of \<open>urlparse\<close> the script reads the
  attribute \<open>query\<close>.
\<close>

record ParseResult =
  scheme :: pystr
  netloc :: pystr
  path :: pystr
  params :: pystr
  query :: pystr
  fragment :: pystr

text \<open>A value held by a transcript entry: a string, or something else of the named type.\<close>

datatype pyval = Str pystr | NonStr pystr

type_synonym snippet = "pystr \<rightharpoonup> pyval"

record env =
  urlparse :: "pystr \<Rightarrow> exn + ParseResult"
  parse_qs :: "pystr \<Rightarrow> exn + (pystr \<rightharpoonup> pystr list)"
  get_transcript :: "pystr \<Rightarrow> exn + snippet list"
  chain_invoke :: "pystr \<Rightarrow> pystr \<Rightarrow> exn + pystr"
  lower :: "pystr \<Rightarrow> pystr"

text \<open>
  The state a run of the script works on: \<open>st.session_state\<close> (\<open>content\<close>, set to the
  empty string by the script before \<open>main_page\<close> runs, and \<open>current_question\<close>, absent
  at first), what has been shown, and the video identifiers for which a transcript was
  requested. Spinners, columns and containers lay out what is shown and add nothing to it.
\<close>

record world =
  content :: pystr
  current_question :: "pystr option"
  shown :: "unit ui list"
  fetched :: "pystr list"

definition st_show :: "unit ui \<Rightarrow> world \<Rightarrow> world" where
  "st_show u w = w\<lparr>shown := shown w @ [u]\<rparr>"

text \<open>\<open>[t["text"] for t in transcript_list]\<close>: a missing key raises \<open>KeyError\<close>.\<close>

fun texts :: "snippet list \<Rightarrow> exn + pyval list" where
  "texts [] = Inr []"
| "texts (t # ts) =
     (case t (str ''text'') of
        None \<Rightarrow> Inl (Exn True (str ''KeyError'') (str [CHR 0x27] @ str ''text'' @ str [CHR 0x27]))
      | Some v \<Rightarrow> (case texts ts of Inl e \<Rightarrow> Inl e | Inr vs \<Rightarrow> Inr (v # vs)))"

text \<open>
  \<open>sep.join\<close> accepts strings only: \<open>str_items i vs\<close> gives the strings of \<open>vs\<close>, or the
  \<open>TypeError\<close> for the first item that is not one, \<open>i\<close> being the position of the head
  of \<open>vs\<close>.
\<close>

fun str_items :: "nat \<Rightarrow> pyval list \<Rightarrow> exn + pystr list" where
  "str_items i [] = Inr []"
| "str_items i (Str s # vs) =
     (case str_items (Suc i) vs of Inl e \<Rightarrow> Inl e | Inr ss \<Rightarrow> Inr (s # ss))"
| "str_items i (NonStr ty # vs) =
     Inl (Exn True (str ''TypeError'')
       (str ''sequence item '' @ show_nat i @ str '': expected str instance, '' @ ty
          @ str '' found''))"

definition join_values :: "pystr \<Rightarrow> pyval list \<Rightarrow> exn + pystr" where
  "join_values sep vs = (case str_items 0 vs of Inl e \<Rightarrow> Inl e | Inr ss \<Rightarrow> Inr (join sep ss))"

text \<open>
  The \<open>try\<close> block of \<open>get_transcript_content\<close>, run with the variable \<open>content\<close> as
  given. It yields how the block ended (\<open>Inl e\<close>: \<open>e\<close> was raised; \<open>Inr (Some v)\<close>:
  \<open>return v\<close> was executed; \<open>Inr None\<close>: the end of the block was reached), the variable
  \<open>content\<close> at that moment, and the state.
\<close>

definition get_transcript_content_try ::
  "env \<Rightarrow> pystr \<Rightarrow> pystr \<Rightarrow> world \<Rightarrow> (exn + pystr option) \<times> pystr \<times> world" where
  "get_transcript_content_try env url content0 w =
     (case urlparse env url of
        Inl e \<Rightarrow> (Inl e, content0, w)
      | Inr parsed_url \<Rightarrow>
     (case parse_qs env (query parsed_url) of
        Inl e \<Rightarrow> (Inl e, content0, w)
      | Inr query_params \<Rightarrow>
     (case list_index (case query_params (str ''v'') of
                         None \<Rightarrow> [None]
                       | Some vs \<Rightarrow> map Some vs) 0 of
        Inl e \<Rightarrow> (Inl e, content0, w)
      | Inr video_id \<Rightarrow>
     (if video_id = None \<or> video_id = Some []
      then (Inr (Some content0), content0, st_show (Error (str ''Invalid YouTube URL'')) w)
      else
        let w1 = w\<lparr>fetched := fetched w @ [the video_id]\<rparr> in
        (case get_transcript env (the video_id) of
           Inl e \<Rightarrow> (Inl e, content0, w1)
         | Inr transcript_list \<Rightarrow>
        (case texts transcript_list of
           Inl e \<Rightarrow> (Inl e, content0, w1)
         | Inr vs \<Rightarrow>
        (case join_values (str '' '') vs of
           Inl e \<Rightarrow> (Inl e, content0, w1)
         | Inr content1 \<Rightarrow>
             let content2 = clean_transcript content1
             in (Inr None, content2, w1))))))))"

definition get_transcript_content :: "env \<Rightarrow> pystr \<Rightarrow> world \<Rightarrow> (exn + pystr) \<times> world" where
  "get_transcript_content env url w =
     (let content0 = [] in
      case get_transcript_content_try env url content0 w of
        (Inr (Some v), content1, w1) \<Rightarrow> (Inr v, w1)
      | (Inr None, content1, w1) \<Rightarrow> (Inr content1, w1)
      | (Inl e, content1, w1) \<Rightarrow>
          if is_Exception e
          then let w2 = st_show (Error (str ''Error getting transcript: '' @ exn_str e)) w1
               in (Inr content1, w2)
          else (Inl e, w1))"

definition SUGGESTED_QUESTIONS :: "pystr list" where
  "SUGGESTED_QUESTIONS =
     [str ''What is the main topic covered in this video?'',
      str ''List the key points in bullet points.'',
      str ''What are the top takeaways from this content?'',
      str ''Can you summarize the video briefly?'',
      str ''Are there any important examples or facts mentioned?'']"

text \<open>
  What the user does in one run of the page: the text of the URL field, whether
  \<open>Load Video\<close> was clicked, the checkbox, which of the buttons with a given label was
  clicked, and the text the question area holds for a given initial value.
\<close>

record inputs =
  url_text :: pystr
  load_clicked :: bool
  use_bullets :: bool
  button_clicked :: "pystr \<Rightarrow> bool"
  question_text :: "pystr \<Rightarrow> pystr"

definition bullet_suffix :: pystr where
  "bullet_suffix = str '' Please format as bullet points.''"

text \<open>The block under \<open>if clicked\<close>.\<close>

definition load_block :: "env \<Rightarrow> pystr \<Rightarrow> world \<Rightarrow> (exn + unit) \<times> world" where
  "load_block env url w =
     (case get_transcript_content env url w of
        (Inl e, w1) \<Rightarrow> (Inl e, w1)
      | (Inr c, w1) \<Rightarrow>
          if c \<noteq> []
          then (Inr (), st_show (Success (str ''Loaded!'')) (w1\<lparr>content := c\<rparr>))
          else (Inr (), st_show (Error (str ''Could not load transcript'')) w1))"

text \<open>The loop over the suggested questions.\<close>

fun question_buttons :: "inputs \<Rightarrow> pystr list \<Rightarrow> world \<Rightarrow> world" where
  "question_buttons inp [] w = w"
| "question_buttons inp (q # qs) w =
     (if button_clicked inp q
      then question_buttons inp qs
             (w\<lparr>current_question := Some (if use_bullets inp then q @ bullet_suffix else q)\<rparr>)
      else question_buttons inp qs w)"

text \<open>The \<open>try\<close> statement under \<open>if question\<close>, with its handler.\<close>

definition analysis_block :: "env \<Rightarrow> inputs \<Rightarrow> pystr \<Rightarrow> world \<Rightarrow> (exn + unit) \<times> world" where
  "analysis_block env inp question w =
     (let question1 =
            (if use_bullets inp \<and> \<not> contains (str ''bullet points'') (lower env question)
             then question @ bullet_suffix else question)
      in case chain_invoke env (content w) question1 of
           Inr response \<Rightarrow>
             (Inr (), st_show (Write response) (st_show (Markdown (str ''### Analysis:'')) w))
         | Inl e \<Rightarrow>
             if is_Exception e
             then (Inr (),
                   st_show (Info (str ''Make sure Ollama is running with the correct model''))
                     (st_show (Error (str ''Error: '' @ exn_str e)) w))
             else (Inl e, w))"

definition intro_markdown :: pystr where
  "intro_markdown =
     [10] @ str ''    ### '' @ [0x1F4FA] @ str '' YouTube Video Analysis'' @ [10]
     @ str ''    Using Llama 3.2B Instruct model for concise video content analysis.'' @ [10]
     @ str ''    '' @ [10]
     @ str ''    **Tips:**'' @ [10]
     @ str ''    - Ask short, specific questions'' @ [10]
     @ str ''    - Use bullet points option for clearer summaries'' @ [10]
     @ str ''    - Keep questions focused on main content'' @ [10]
     @ str ''    ''"

definition main_page :: "env \<Rightarrow> inputs \<Rightarrow> world \<Rightarrow> (exn + unit) \<times> world" where
  "main_page env inp w0 =
     (let w1 = st_show (Markdown intro_markdown) w0;
          url = url_text inp;
          clicked = load_clicked inp
      in case (if clicked then load_block env url w1 else (Inr (), w1)) of
           (Inl e, w2) \<Rightarrow> (Inl e, w2)
         | (Inr u, w2) \<Rightarrow>
             if content w2 \<noteq> []
             then
               let w3 = st_show (Write (content w2)) (st_show (Expander (str ''Video Transcript'')) w2);
                   w4 = st_show (Markdown (str ''### Quick Questions'')) w3;
                   w5 = question_buttons inp SUGGESTED_QUESTIONS w4;
                   question = question_text inp
                     (case current_question w5 of
                        Some q \<Rightarrow> q
                      | None \<Rightarrow> str ''What is this video about?'')
               in if question \<noteq> [] then analysis_block env inp question w5 else (Inr (), w5)
             else (Inr (), w2))"

section \<open>Workshop 9: the Iris classifier behind FastAPI\<close>

text \<open>
  The classifier is loaded from \<open>iris_classifier.pkl\<close> and is a parameter: its methods
  \<open>predict\<close> and \<open>predict_proba\<close> take the samples (\<open>'x\<close>) and give one class
  per sample, and one row of probabilities per sample. A call works on the state \<open>'s\<close>
  of whatever lies behind the classifier and may change it. The type \<open>'f\<close> stands for
  \<open>float\<close>; the scripts pass floats on and never compute with them.
\<close>

record ('x, 'f, 's) classifier =
  model_predict :: "'x \<Rightarrow> 's \<Rightarrow> (exn + int list) \<times> 's"
  model_predict_proba :: "'x \<Rightarrow> 's \<Rightarrow> (exn + 'f list list) \<times> 's"

text \<open>
  The classes the source expects of the classifier (\<open>The model's output is an integer:
  0, 1, or 2\<close>).
\<close>

definition iris_classes :: "('x, 'f, 's) classifier \<Rightarrow> bool" where
  "iris_classes model =
     (\<forall>a s p. fst (model_predict model a s) = Inr p \<longrightarrow> set p \<subseteq> {0, 1, 2})"

record 'f PredictionInput =
  sepal_length :: 'f
  sepal_width :: 'f
  petal_length :: 'f
  petal_width :: 'f

record response =
  prediction :: pystr
  prediction_code :: int

text \<open>
  What leaves the handler when it does not return: the \<open>HTTPException\<close> it raises, or
  an exception that its \<open>except Exception\<close> does not catch.
\<close>

datatype raised = HTTPException (status_code: int) (detail: pystr) | Uncaught exn

text \<open>The \<open>try\<close> block of \<open>predict\<close>.\<close>

definition predict_try ::
  "('f list list, 'f, 's) classifier \<Rightarrow> 'f PredictionInput \<Rightarrow> 's \<Rightarrow> (exn + response) \<times> 's" where
  "predict_try model input_data s =
     (let features = [[sepal_length input_data, sepal_width input_data,
                       petal_length input_data, petal_width input_data]]
      in (case model_predict model features s of
            (Inl e, s1) \<Rightarrow> (Inl e, s1)
          | (Inr predicted, s1) \<Rightarrow>
              let iris_types = [str ''setosa'', str ''versicolor'', str ''virginica'']
              in (case array_first predicted of
                    Inl e \<Rightarrow> (Inl e, s1)
                  | Inr p0 \<Rightarrow>
                 (case list_index iris_types p0 of
                    Inl e \<Rightarrow> (Inl e, s1)
                  | Inr result \<Rightarrow>
                      (Inr \<lparr>prediction = result, prediction_code = p0\<rparr>, s1)))))"

definition predict ::
  "('f list list, 'f, 's) classifier \<Rightarrow> 'f PredictionInput \<Rightarrow> 's \<Rightarrow> (raised + response) \<times> 's" where
  "predict model input_data s =
     (case predict_try model input_data s of
        (Inr r, s1) \<Rightarrow> (Inr r, s1)
      | (Inl e, s1) \<Rightarrow>
          if is_Exception e then (Inl (HTTPException 500 (exn_str e)), s1)
          else (Inl (Uncaught e), s1))"

section \<open>Workshop 9: the Iris classifier behind Streamlit\<close>

text \<open>The four sliders of the sidebar.\<close>

record 'f sliders =
  sepal_length_cm :: 'f
  sepal_width_cm :: 'f
  petal_length_cm :: 'f
  petal_width_cm :: 'f

definition user_input_features :: "'f sliders \<Rightarrow> 'f DataFrame" where
  "user_input_features sl =
     \<lparr>index = [Pos 0],
      columns = [Name (str ''sepal_length''), Name (str ''sepal_width''),
                 Name (str ''petal_length''), Name (str ''petal_width'')],
      rows = [[sepal_length_cm sl, sepal_width_cm sl, petal_length_cm sl, petal_width_cm sl]]\<rparr>"

definition species_names :: "pystr list" where
  "species_names = [str ''Setosa'', str ''Versicolor'', str ''Virginica'']"

text \<open>
  \<open>pd.DataFrame(a, columns=names)\<close> for a two-dimensional array \<open>a\<close>: the rows must be
  as wide as \<open>names\<close> is long.
\<close>

definition frame_of_array :: "'f list list \<Rightarrow> pystr list \<Rightarrow> exn + 'f DataFrame" where
  "frame_of_array a names =
     (if \<forall>r \<in> set a. length r = length names
      then Inr \<lparr>index = map (\<lambda>i. Pos (int i)) [0 ..< length a], columns = map Name names,
                rows = a\<rparr>
      else Inl (Exn True (str ''ValueError'')
             (str ''Shape of passed values is ('' @ show_nat (length a) @ str '', ''
                @ show_nat (length (hd a)) @ str ''), indices imply ('' @ show_nat (length a)
                @ str '', '' @ show_nat (length names) @ str '')'')))"

definition species_info :: "(pystr \<times> pystr) list" where
  "species_info =
     [(str ''Setosa'',
       str ''Iris setosa is known for its distinct appearance with small petals.''),
      (str ''Versicolor'',
       str ''Iris versicolor, also known as the blue flag, has medium-sized petals.''),
      (str ''Virginica'',
       str ''Iris virginica, also known as the Virginia iris, has large petals.'')]"

definition iris_welcome :: pystr where
  "iris_welcome =
     [10] @ str ''### Welcome to the Iris Flower Classifier!'' @ [10]
     @ str ''This application predicts the species of Iris flowers based on their measurements.''
     @ [10]"

definition iris_footer :: pystr where
  "iris_footer =
     [10] @ str ''---'' @ [10] @ str ''Created with '' @ [0x201A, 0xF9, 0xA7, 0xD4, 0x220F, 0xE8]
     @ str '' using Streamlit'' @ [10]"

text \<open>
  The script from its title on, with the classifier loaded: it yields whether it ended
  (\<open>Inr ()\<close>) or an exception left it (\<open>Inl e\<close>), what it has shown by then, and the
  state behind the classifier. No statement of the script is inside a \<open>try\<close>.
\<close>

definition iris_streamlit_app ::
  "('f DataFrame, 'f, 's) classifier \<Rightarrow> 'f sliders \<Rightarrow> 's \<Rightarrow> (exn + unit) \<times> 'f ui list \<times> 's" where
  "iris_streamlit_app model sl s =
     (let out0 = [Title ([0xF8FF, 0xFC, 0xE5, 0x220F] @ str '' Iris Flower Classification''),
                  Write iris_welcome, Header (str ''Input Measurements'')];
          df = user_input_features sl;
          out1 = out0 @ [Subheader (str ''User Input Parameters''), WriteFrame df]
      in (case model_predict model df s of
            (Inl e, s1) \<Rightarrow> (Inl e, out1, s1)
          | (Inr predicted, s1) \<Rightarrow>
         (case model_predict_proba model df s1 of
            (Inl e, s2) \<Rightarrow> (Inl e, out1, s2)
          | (Inr prediction_proba, s2) \<Rightarrow>
         (case array_first predicted of
            Inl e \<Rightarrow> (Inl e, out1, s2)
          | Inr p0 \<Rightarrow>
         (case list_index species_names p0 of
            Inl e \<Rightarrow> (Inl e, out1, s2)
          | Inr predicted_species \<Rightarrow>
              let out2 = out1 @ [Subheader (str ''Prediction''),
                                 Write (str ''**Species**: '' @ predicted_species),
                                 Subheader (str ''Prediction Probability'')]
              in (case frame_of_array prediction_proba species_names of
                    Inl e \<Rightarrow> (Inl e, out2, s2)
                  | Inr prob_df \<Rightarrow>
                      (Inr (),
                       out2 @ [WriteFrame prob_df, BarChart (T prob_df),
                               Subheader (str ''Iris Species Information'')]
                         @ concat (map (\<lambda>(species, info).
                                     [Expander (str ''About '' @ species), Write info])
                                   species_info)
                         @ [Markdown iris_footer],
                       s2)))))))"

section \<open>Workshop 6: the dashboard's data\<close>

text \<open>
  \<open>np.random\<close> is a parameter: a generator state \<open>'g\<close> and, for each distribution, the
  draw of one sample. \<open>randn(n)\<close>, \<open>uniform(low, high, n)\<close> and \<open>exponential(scale, n)\<close>
  draw \<open>n\<close> samples one after the other, and refuse a negative \<open>n\<close>.
\<close>

record ('g, 'f) np_random =
  normal_sample :: "'g \<Rightarrow> 'f \<times> 'g"
  uniform_sample :: "int \<Rightarrow> int \<Rightarrow> 'g \<Rightarrow> 'f \<times> 'g"
  exponential_sample :: "int \<Rightarrow> 'g \<Rightarrow> 'f \<times> 'g"

fun draw :: "('g \<Rightarrow> 'f \<times> 'g) \<Rightarrow> nat \<Rightarrow> 'g \<Rightarrow> 'f list \<times> 'g" where
  "draw f 0 g = ([], g)"
| "draw f (Suc k) g =
     (case f g of (x, g1) \<Rightarrow> (case draw f k g1 of (xs, g2) \<Rightarrow> (x # xs, g2)))"

definition samples :: "('g \<Rightarrow> 'f \<times> 'g) \<Rightarrow> int \<Rightarrow> 'g \<Rightarrow> (exn + 'f list) \<times> 'g" where
  "samples f n g =
     (if n < 0
      then (Inl (Exn True (str ''ValueError'') (str ''negative dimensions are not allowed'')), g)
      else (case draw f (nat n) g of (xs, g1) \<Rightarrow> (Inr xs, g1)))"

text \<open>\<open>pd.DataFrame({'x': x, 'y': y})\<close> for two arrays of one length.\<close>

definition frame_xy :: "'f list \<Rightarrow> 'f list \<Rightarrow> 'f DataFrame" where
  "frame_xy x y =
     \<lparr>index = map (\<lambda>i. Pos (int i)) [0 ..< length x],
      columns = [Name (str ''x''), Name (str ''y'')],
      rows = map (\<lambda>(a, b). [a, b]) (zip x y)\<rparr>"

text \<open>
  \<open>generate_data\<close>, given the slider's value \<open>n\<close>, the chosen distribution (the
  source's \<open>dist\<close>) and the generator: \<open>x\<close> is drawn, then \<open>y\<close>.
\<close>

definition generate_data ::
  "('g, 'f) np_random \<Rightarrow> int \<Rightarrow> pystr \<Rightarrow> 'g \<Rightarrow> (exn + 'f DataFrame) \<times> 'g" where
  "generate_data rnd n distribution g =
     (let f = (if distribution = str ''Normal'' then normal_sample rnd
               else if distribution = str ''Uniform'' then uniform_sample rnd (- 3) 3
               else exponential_sample rnd 1)
      in (case samples f n g of
            (Inl e, g1) \<Rightarrow> (Inl e, g1)
          | (Inr x, g1) \<Rightarrow>
         (case samples f n g1 of
            (Inl e, g2) \<Rightarrow> (Inl e, g2)
          | (Inr y, g2) \<Rightarrow> (Inr (frame_xy x y), g2))))"

definition data_table ::
  "('g, 'f) np_random \<Rightarrow> int \<Rightarrow> pystr \<Rightarrow> 'g \<Rightarrow> (exn + 'f DataFrame) \<times> 'g" where
  "data_table rnd n distribution g =
     (case generate_data rnd n distribution g of
        (Inl e, g1) \<Rightarrow> (Inl e, g1)
      | (Inr df, g1) \<Rightarrow> (Inr (head 10 df), g1))"

section \<open>Concrete inputs\<close>

text \<open>
  Inputs at which the properties below are evaluated. For the classifier: one that
  answers class \<open>k\<close> for every sample, one whose \<open>predict\<close> raises \<open>e\<close>, one that
  answers class 0 and whose \<open>predict_proba\<close> raises \<open>e\<close>, and a wrapper that makes any
  classifier write down each argument its \<open>predict\<close> receives; one flower, and the
  sliders as they start. For the dashboard: a generator that counts.
\<close>

definition constant_model :: "int \<Rightarrow> ('x, real, unit) classifier" where
  "constant_model k = \<lparr>model_predict = (\<lambda>a s. (Inr [k], s)),
                       model_predict_proba = (\<lambda>a s. (Inr [[1, 0, 0]], s))\<rparr>"

definition raising_model :: "exn \<Rightarrow> ('x, real, unit) classifier" where
  "raising_model e = \<lparr>model_predict = (\<lambda>a s. (Inl e, s)),
                      model_predict_proba = (\<lambda>a s. (Inr [[1, 0, 0]], s))\<rparr>"

definition raising_proba_model :: "exn \<Rightarrow> ('x, real, unit) classifier" where
  "raising_proba_model e = \<lparr>model_predict = (\<lambda>a s. (Inr [0], s)),
                            model_predict_proba = (\<lambda>a s. (Inl e, s))\<rparr>"

definition recording :: "('x, 'f, 's) classifier \<Rightarrow> ('x, 'f, 's \<times> 'x list) classifier" where
  "recording model =
     \<lparr>model_predict = (\<lambda>a (s, seen). case model_predict model a s of
                          (r, s1) \<Rightarrow> (r, (s1, seen @ [a]))),
      model_predict_proba = (\<lambda>a (s, seen). case model_predict_proba model a s of
                          (r, s1) \<Rightarrow> (r, (s1, seen)))\<rparr>"

definition flower0 :: "real PredictionInput" where
  "flower0 = \<lparr>sepal_length = 5.1, sepal_width = 3.5, petal_length = 1.4, petal_width = 0.2\<rparr>"

definition sliders0 :: "real sliders" where
  "sliders0 = \<lparr>sepal_length_cm = 5.4, sepal_width_cm = 3.4, petal_length_cm = 1.3,
                petal_width_cm = 0.2\<rparr>"

definition counter :: "(nat, real) np_random" where
  "counter = \<lparr>normal_sample = (\<lambda>g. (real g, Suc g)),
              uniform_sample = (\<lambda>lo hi g. (real g, Suc g)),
              exponential_sample = (\<lambda>scale g. (real g, Suc g))\<rparr>"

text \<open>
  For the transcript script: library calls that answer the same whatever they are asked
  (\<open>urlparse\<close> gives the query string \<open>qs\<close>, \<open>parse_qs\<close> the parameters \<open>qp\<close>), a
  state with nothing shown yet and one that holds a transcript, a URL without and one
  with a video identifier, an exception that derives from \<open>Exception\<close> and one that
  does not, and a run of the page in which the user types a question.
\<close>

definition stub_env ::
  "pystr \<Rightarrow> (pystr \<rightharpoonup> pystr list) \<Rightarrow> (exn + snippet list) \<Rightarrow> (exn + pystr) \<Rightarrow> env" where
  "stub_env qs qp fetch answer =
     \<lparr>urlparse = (\<lambda>u. Inr \<lparr>scheme = str ''https'', netloc = str ''www.youtube.com'',
                              path = str ''/watch'', params = [], query = qs,
                              fragment = []\<rparr>),
      parse_qs = (\<lambda>q. Inr qp),
      get_transcript = (\<lambda>v. fetch),
      chain_invoke = (\<lambda>c q. answer),
      lower = (\<lambda>s. s)\<rparr>"

definition world0 :: world where
  "world0 = \<lparr>content = [], current_question = None, shown = [], fetched = []\<rparr>"

definition world1 :: world where
  "world1 = \<lparr>content = str ''hello'', current_question = None, shown = [], fetched = []\<rparr>"

definition refused :: exn where
  "refused = Exn True (str ''ConnectionError'') (str ''connection refused'')"

definition interrupt :: exn where
  "interrupt = Exn False (str ''KeyboardInterrupt'') []"

definition no_video_env :: env where
  "no_video_env = stub_env (str ''t=1369s'') [str ''t'' \<mapsto> [str ''1369s'']]
                    (Inl refused) (Inl refused)"

definition no_video_url :: pystr where
  "no_video_url = str ''https://www.youtube.com/watch?t=1369s''"

definition video_env :: "exn \<Rightarrow> env" where
  "video_env e = stub_env (str ''v=LWMzyfvuehA'') [str ''v'' \<mapsto> [str ''LWMzyfvuehA'']]
                   (Inl e) (Inl e)"

definition video_url :: pystr where
  "video_url = str ''https://www.youtube.com/watch?v=LWMzyfvuehA''"

definition inputs0 :: inputs where
  "inputs0 = \<lparr>url_text = video_url, load_clicked = False, use_bullets = True,
               button_clicked = (\<lambda>q. False),
               question_text = (\<lambda>d. str ''What is said about lists?'')\<rparr>"

section \<open>Properties of the transcript cleaner\<close>

text \<open>
  C5: for every input string, the string returned by \<open>clean_transcript\<close> has at most
  4000 characters.
\<close>

theorem clean_transcript_length: "length (clean_transcript text) \<le> 4000"
  by (simp add: clean_transcript_def Let_def)

subsection \<open>What a scan of \<open>replace\<close> leaves\<close>

text \<open>
  A string found in the result of \<open>replace\<close> was in the text already, and is not the
  string removed, or it has closed up around a removed occurrence: a part of it that is
  not empty stood directly before that occurrence.
\<close>

lemma contains_iff: "contains u s \<longleftrightarrow> (\<exists>a b. s = a @ u @ b)"
proof (induction s)
  case Nil
  then show ?case by auto
next
  case (Cons c cs)
  show ?case
  proof
    assume "contains u (c # cs)"
    then consider "prefix u (c # cs)" | "contains u cs" by auto
    then show "\<exists>a b. c # cs = a @ u @ b"
    proof cases
      case 1
      then obtain b where "c # cs = u @ b" by (auto simp: prefix_def)
      then have "c # cs = [] @ u @ b" by simp
      then show ?thesis by blast
    next
      case 2
      then obtain a b where "cs = a @ u @ b" using Cons.IH by blast
      then have "c # cs = (c # a) @ u @ b" by simp
      then show ?thesis by blast
    qed
  next
    assume "\<exists>a b. c # cs = a @ u @ b"
    then obtain a b where ab: "c # cs = a @ u @ b" by blast
    show "contains u (c # cs)"
    proof (cases a)
      case Nil
      then have "prefix u (c # cs)" using ab by (simp add: prefix_def)
      then show ?thesis by simp
    next
      case (Cons x xs)
      then have "cs = xs @ u @ b" using ab by simp
      then have "contains u cs" using Cons.IH by blast
      then show ?thesis by simp
    qed
  qed
qed

lemma contains_appendI: "contains u s \<Longrightarrow> contains u (a @ s @ b)"
proof -
  assume "contains u s"
  then obtain p q where "s = p @ u @ q" by (auto simp: contains_iff)
  then have "a @ s @ b = (a @ p) @ u @ (q @ b)" by simp
  then show ?thesis unfolding contains_iff by blast
qed

lemma contains_drop: "contains u (drop k s) \<Longrightarrow> contains u s"
  using contains_appendI [of u "drop k s" "take k s" "[]"] by simp

lemma contains_take: "contains u (take k s) \<Longrightarrow> contains u s"
  using contains_appendI [of u "take k s" "[]" "drop k s"] by simp

lemma contains_part: "contains (a @ u @ b) s \<Longrightarrow> contains u s"
proof -
  assume "contains (a @ u @ b) s"
  then obtain p q where "s = p @ (a @ u @ b) @ q" by (auto simp: contains_iff)
  then have "s = (p @ a) @ u @ (b @ q)" by simp
  then show ?thesis unfolding contains_iff by blast
qed

lemma replace_prefix:
  "prefix u (replace s (a # old) []) \<Longrightarrow>
     prefix u s \<or> (\<exists>y z. u = y @ z \<and> z \<noteq> [] \<and> prefix (y @ a # old) s)"
proof (induction s arbitrary: u)
  case Nil
  then show ?case by simp
next
  case (Cons c cs)
  show ?case
  proof (cases u)
    case Nil
    then show ?thesis by simp
  next
    case u: (Cons b u1)
    show ?thesis
    proof (cases "prefix (a # old) (c # cs)")
      case True
      then have "u = [] @ u \<and> u \<noteq> [] \<and> prefix ([] @ a # old) (c # cs)"
        using u by simp
      then show ?thesis by blast
    next
      case False
      then have r: "replace (c # cs) (a # old) [] = c # replace cs (a # old) []"
        by auto
      with Cons.prems u have bc: "b = c" and p: "prefix u1 (replace cs (a # old) [])"
        by simp_all
      from Cons.IH [OF p] consider "prefix u1 cs"
        | y z where "u1 = y @ z" "z \<noteq> []" "prefix (y @ a # old) cs"
        by blast
      then show ?thesis
      proof cases
        case 1
        then show ?thesis using u bc by simp
      next
        case 2
        then have "u = (c # y) @ z \<and> z \<noteq> [] \<and> prefix ((c # y) @ a # old) (c # cs)"
          using u bc by simp
        then show ?thesis by blast
      qed
    qed
  qed
qed

lemma replace_seam:
  "contains u (replace s (a # old) []) \<Longrightarrow>
     (u \<noteq> a # old \<and> contains u s)
     \<or> (\<exists>y z. u = y @ z \<and> y \<noteq> [] \<and> z \<noteq> [] \<and> contains (y @ a # old) s)"
proof (induction s rule: length_induct)
  case (1 s)
  show ?case
  proof (cases s)
    case Nil
    then show ?thesis using "1.prems" by auto
  next
    case (Cons c cs)
    show ?thesis
    proof (cases "prefix (a # old) (c # cs)")
      case True
      let ?d = "drop (length (a # old)) (c # cs)"
      have "length ?d < length s" using Cons by simp
      moreover have "contains u (replace ?d (a # old) [])"
        using "1.prems" True Cons by simp
      ultimately have "(u \<noteq> a # old \<and> contains u ?d)
         \<or> (\<exists>y z. u = y @ z \<and> y \<noteq> [] \<and> z \<noteq> [] \<and> contains (y @ a # old) ?d)"
        using "1.IH" by blast
      then show ?thesis using Cons contains_drop by blast
    next
      case False
      then have r: "replace s (a # old) [] = c # replace cs (a # old) []"
        using Cons by auto
      from "1.prems" r consider "prefix u (replace s (a # old) [])"
        | "contains u (replace cs (a # old) [])"
        by auto
      then show ?thesis
      proof cases
        case 1
        from replace_prefix [OF 1] consider "prefix u s"
          | y z where "u = y @ z" "z \<noteq> []" "prefix (y @ a # old) s"
          by blast
        then show ?thesis
        proof cases
          case 1
          then have "u \<noteq> a # old" using False Cons by auto
          moreover have "contains u s" using 1 Cons by simp
          ultimately show ?thesis by blast
        next
          case 2
          then have "y \<noteq> []" using False Cons by auto
          moreover have "contains (y @ a # old) s" using 2(3) Cons by simp
          ultimately show ?thesis using 2(1,2) by blast
        qed
      next
        case 2
        have "length cs < length s" using Cons by simp
        then have "(u \<noteq> a # old \<and> contains u cs)
           \<or> (\<exists>y z. u = y @ z \<and> y \<noteq> [] \<and> z \<noteq> [] \<and> contains (y @ a # old) cs)"
          using "1.IH" 2 by blast
        then show ?thesis using Cons by auto
      qed
    qed
  qed
qed


lemma contains_across:
  "contains u (x @ c # y) \<Longrightarrow> c \<notin> set u \<Longrightarrow> contains u x \<or> contains u y"
proof (induction x)
  case Nil
  then show ?case by (cases u) auto
next
  case (Cons d x)
  from Cons.prems(1) consider "prefix u ((d # x) @ c # y)" | "contains u (x @ c # y)"
    by auto
  then show ?case
  proof cases
    case 1
    then have "prefix u (d # x) \<or> (\<exists>us. u = (d # x) @ us \<and> prefix us (c # y))"
      using prefix_append [of u "d # x" "c # y"] by simp
    then consider "prefix u (d # x)" | us where "u = (d # x) @ us" "prefix us (c # y)"
      by blast
    then show ?thesis
    proof cases
      case 1
      then show ?thesis by simp
    next
      case 2
      then have "us = []" using Cons.prems(2) by (cases us) auto
      then have "prefix u (d # x)" using 2(1) by simp
      then show ?thesis by simp
    qed
  next
    case 2
    then show ?thesis using Cons.IH Cons.prems(2) by auto
  qed
qed

lemma join_Cons: "join sep (w # ws) = w @ (if ws = [] then [] else sep @ join sep ws)"
  by (cases ws) auto

lemma contains_normalise:
  assumes ns: "\<forall>c \<in> set u. \<not> isspace c"
  shows "contains u (join (str '' '') (split_from w cs)) \<Longrightarrow> contains u (w @ cs)"
proof (induction cs arbitrary: w)
  case Nil
  then show ?case by (cases "w = []") auto
next
  case (Cons c cs)
  show ?case
  proof (cases "isspace c")
    case False
    then show ?thesis using Cons.IH [of "w @ [c]"] Cons.prems by simp
  next
    case True
    have rest: "contains u (join (str '' '') (split_from [] cs)) \<Longrightarrow> contains u (w @ c # cs)"
    proof -
      assume "contains u (join (str '' '') (split_from [] cs))"
      then have "contains u cs" using Cons.IH [of "[]"] by simp
      then show ?thesis using contains_appendI [of u cs "w @ [c]" "[]"] by simp
    qed
    have left: "contains u w \<Longrightarrow> contains u (w @ c # cs)"
      using contains_appendI [of u w "[]" "c # cs"] by simp
    show ?thesis
    proof (cases "w = []")
      case True
      then show ?thesis using \<open>isspace c\<close> Cons.prems rest by simp
    next
      case False
      show ?thesis
      proof (cases "split_from [] cs = []")
        case True
        then have "contains u w" using Cons.prems \<open>isspace c\<close> False by (simp add: join_Cons)
        then show ?thesis by (rule left)
      next
        case ne: False
        have "isspace 32" by (simp add: isspace_def)
        then have "32 \<notin> set u" using ns by blast
        moreover have "contains u (w @ 32 # join (str '' '') (split_from [] cs))"
          using Cons.prems \<open>isspace c\<close> False ne by (simp add: join_Cons str_def)
        ultimately have "contains u w \<or> contains u (join (str '' '') (split_from [] cs))"
          by (rule contains_across [rotated])
        then show ?thesis using left rest by blast
      qed
    qed
  qed
qed

lemma marker_chars: "m \<in> set markers \<Longrightarrow> c \<in> set m \<Longrightarrow> \<not> isspace c"
  by (auto simp: markers_def Music_def Applause_def str_def isspace_def)

lemma opening_I:
  assumes "m \<in> set markers" and "m = y @ z" and "y \<noteq> []" and "z \<noteq> []"
  shows "y \<in> set openings"
proof -
  obtain a y1 where y: "y = a # y1" using assms(3) by (cases y) auto
  obtain b z1 where z: "z = b # z1" using assms(4) by (cases z) auto
  have "1 \<le> length y" and "length y < length m" using y z assms(2) by simp_all
  then have k: "length y \<in> set [1 ..< length m]"
    by (simp only: set_upt atLeastLessThan_iff)
  have "take (length y) m = y" using assms(2) by simp
  then have "y \<in> (\<lambda>k. take k m) ` set [1 ..< length m]"
    using k by (metis image_eqI)
  then show ?thesis using assms(1) by (auto simp: openings_def)
qed

lemma opening_D:
  assumes "x \<in> set openings"
  shows "\<exists>m \<in> set markers. \<exists>rest. m = x @ rest \<and> rest \<noteq> [] \<and> x \<noteq> []"
proof -
  from assms obtain m k where m: "m \<in> set markers" and k: "1 \<le> k" "k < length m"
    and x: "x = take k m"
    by (auto simp: openings_def)
  have "m = x @ drop k m" using x by simp
  moreover have "drop k m \<noteq> []" using k by simp
  moreover have "x \<noteq> []" using x k by (cases m) auto
  ultimately show ?thesis using m by blast
qed

lemma opening_prefix:
  assumes "x \<in> set openings" and "x = y @ t" and "y \<noteq> []"
  shows "y \<in> set openings"
proof -
  from opening_D [OF assms(1)] obtain m rest where m: "m \<in> set markers"
    and r: "m = x @ rest" "rest \<noteq> []"
    by blast
  have "m = y @ (t @ rest)" using r(1) assms(2) by simp
  moreover have "t @ rest \<noteq> []" using r(2) by simp
  ultimately show ?thesis using m assms(3) opening_I by blast
qed

lemma opening_chars: "x \<in> set openings \<Longrightarrow> c \<in> set x \<Longrightarrow> \<not> isspace c"
  using opening_D marker_chars by (metis Un_iff set_append)

lemma unnested_normalise:
  assumes "unnested text"
  shows "unnested (join (str '' '') (split text))"
  unfolding unnested_def
proof (intro ballI notI)
  fix x m
  assume x: "x \<in> set openings" and m: "m \<in> set markers"
    and c: "contains (x @ m) (join (str '' '') (split text))"
  have "\<forall>c \<in> set (x @ m). \<not> isspace c"
    using opening_chars [OF x] marker_chars [OF m] by auto
  from contains_normalise [OF this, of "[]" "text"] c have "contains (x @ m) text"
    by (simp add: split_def)
  then show False using assms x m by (simp add: unnested_def)
qed


lemma Music_Cons: "Music = 91 # [77, 117, 115, 105, 99, 93]"
  by (simp add: Music_def str_def)

lemma Applause_Cons: "Applause = 91 # [65, 112, 112, 108, 97, 117, 115, 101, 93]"
  by (simp add: Applause_def str_def)

lemma music_seam:
  "contains u (replace s Music []) \<Longrightarrow>
     (u \<noteq> Music \<and> contains u s)
     \<or> (\<exists>y z. u = y @ z \<and> y \<noteq> [] \<and> z \<noteq> [] \<and> contains (y @ Music) s)"
  unfolding Music_Cons by (rule replace_seam)

lemma applause_seam:
  "contains u (replace s Applause []) \<Longrightarrow>
     (u \<noteq> Applause \<and> contains u s)
     \<or> (\<exists>y z. u = y @ z \<and> y \<noteq> [] \<and> z \<noteq> [] \<and> contains (y @ Applause) s)"
  unfolding Applause_Cons by (rule replace_seam)

lemma first_pass_music:
  assumes "unnested s"
  shows "\<not> contains Music (replace s Music [])"
proof
  have M: "Music \<in> set markers" by (simp add: markers_def)
  assume "contains Music (replace s Music [])"
  from music_seam [OF this] obtain y z where
    yz: "Music = y @ z" "y \<noteq> []" "z \<noteq> []" and c: "contains (y @ Music) s"
    by blast
  have "y \<in> set openings" using opening_I [OF M yz] .
  then show False using assms c M unfolding unnested_def by blast
qed

lemma first_pass_applause:
  assumes "unnested s" and x: "x \<in> set openings"
  shows "\<not> contains (x @ Applause) (replace s Music [])"
proof
  have M: "Music \<in> set markers" and A: "Applause \<in> set markers"
    by (simp_all add: markers_def)
  have un: "\<not> contains (x1 @ m) s" if "x1 \<in> set openings" "m \<in> set markers" for x1 m
    using assms(1) that unfolding unnested_def by blast
  assume "contains (x @ Applause) (replace s Music [])"
  from music_seam [OF this] consider "contains (x @ Applause) s"
    | y z where "x @ Applause = y @ z" "y \<noteq> []" "z \<noteq> []" "contains (y @ Music) s"
    by blast
  then show False
  proof cases
    case 1
    then show ?thesis using un [OF x A] by simp
  next
    case 2
    from 2(1) have "(\<exists>t. x = y @ t) \<or> (\<exists>t. y = x @ t \<and> Applause = t @ z)"
      unfolding append_eq_append_conv2 by blast
    then consider t where "x = y @ t" | t where "y = x @ t" "Applause = t @ z"
      by blast
    then show ?thesis
    proof cases
      case 1
      have "y \<in> set openings" using opening_prefix [OF x 1 2(2)] .
      then show ?thesis using un [OF _ M] 2(4) by simp
    next
      case t: 2
      show ?thesis
      proof (cases "t = []")
        case True
        then have "y = x" using t(1) by simp
        then show ?thesis using un [OF x M] 2(4) by simp
      next
        case False
        have "t \<in> set openings" using opening_I [OF A t(2) False 2(3)] .
        moreover have "contains (t @ Music) s"
          using contains_part [of x "t @ Music" "[]" s] 2(4) t(1) by simp
        ultimately show ?thesis using un [OF _ M] by simp
      qed
    qed
  qed
qed

lemma second_pass:
  assumes "\<not> contains Music s"
    and "\<And>x. x \<in> set openings \<Longrightarrow> \<not> contains (x @ Applause) s"
    and "m \<in> set markers"
  shows "\<not> contains m (replace s Applause [])"
proof
  assume "contains m (replace s Applause [])"
  from applause_seam [OF this] consider "m \<noteq> Applause" "contains m s"
    | y z where "m = y @ z" "y \<noteq> []" "z \<noteq> []" "contains (y @ Applause) s"
    by blast
  then show False
  proof cases
    case 1
    then have "m = Music" using assms(3) by (simp add: markers_def)
    then show ?thesis using 1(2) assms(1) by simp
  next
    case 2
    have "y \<in> set openings" using opening_I [OF assms(3) 2(1,2,3)] .
    then show ?thesis using 2(4) assms(2) by simp
  qed
qed

lemma unnested_clean:
  assumes "unnested text" and "m \<in> set markers"
  shows "\<not> contains m (clean_transcript text)"
proof
  assume c: "contains m (clean_transcript text)"
  let ?n = "join (str '' '') (split text)"
  have un: "unnested ?n" using assms(1) by (rule unnested_normalise)
  have "\<not> contains m (replace (replace ?n Music []) Applause [])"
    using first_pass_music [OF un] first_pass_applause [OF un] assms(2)
    by (rule second_pass)
  moreover have "contains m (take 4000 (replace (replace ?n Music []) Applause []))"
    using c by (simp add: clean_transcript_def Let_def)
  then have "contains m (replace (replace ?n Music []) Applause [])"
    by (rule contains_take)
  ultimately show False by simp
qed

lemma openings_eq:
  "openings =
     [[91], [91, 77], [91, 77, 117], [91, 77, 117, 115], [91, 77, 117, 115, 105],
      [91, 77, 117, 115, 105, 99],
      [91], [91, 65], [91, 65, 112], [91, 65, 112, 112], [91, 65, 112, 112, 108],
      [91, 65, 112, 112, 108, 97], [91, 65, 112, 112, 108, 97, 117],
      [91, 65, 112, 112, 108, 97, 117, 115], [91, 65, 112, 112, 108, 97, 117, 115, 101]]"
  by (simp add: openings_def markers_def Music_def Applause_def str_def)


text \<open>
  C1, as amended: \<open>replace\<close> scans once, so a marker that only comes into being when the
  text around a removed marker closes up stays. For every input string in which no
  marker is directly preceded by the beginning of a marker, the string returned by
  \<open>clean_transcript\<close> contains neither \<open>[Music]\<close> nor \<open>[Applause]\<close>.
\<close>

theorem clean_transcript_markers:
  "unnested text \<Longrightarrow>
     \<not> contains Music (clean_transcript text) \<and> \<not> contains Applause (clean_transcript text)"
proof -
  assume u: "unnested text"
  have "Music \<in> set markers" and "Applause \<in> set markers"
    by (simp_all add: markers_def)
  then show ?thesis using unnested_clean [OF u] by simp
qed



theorem clean_transcript_markers_witness:
  "unnested (str ''[Laughter] yes [Music] no [Applause]'')
   \<and> \<not> contains Music (clean_transcript (str ''[Laughter] yes [Music] no [Applause]''))
   \<and> \<not> contains Applause (clean_transcript (str ''[Laughter] yes [Music] no [Applause]''))"
proof -
  have u: "unnested (str ''[Laughter] yes [Music] no [Applause]'')"
    by (simp add: unnested_def openings_eq markers_def Music_def Applause_def str_def)
  from clean_transcript_markers [OF u] u show ?thesis by simp
qed

text \<open>
  Without that condition the property fails: removing the inner marker of
  \<open>[Mu[Music]sic]\<close> leaves \<open>[Music]\<close>.
\<close>

theorem clean_transcript_markers_counterexample:
  "contains Music (clean_transcript (str ''[Mu[Music]sic]''))"
  by (simp add: clean_transcript_def split_def str_def Music_def Applause_def isspace_def)

section \<open>Properties of the dashboard's data\<close>

lemma draw_length: "draw f k g = (xs, g1) \<Longrightarrow> length xs = k"
proof (induction k arbitrary: g xs g1)
  case 0
  then show ?case by simp
next
  case (Suc k)
  obtain x g2 where a: "f g = (x, g2)" by (cases "f g")
  obtain ys g3 where b: "draw f k g2 = (ys, g3)" by (cases "draw f k g2")
  from Suc.prems a b have "xs = x # ys" by simp
  moreover from Suc.IH [OF b] have "length ys = k" .
  ultimately show ?case by simp
qed

lemma samples_length:
  assumes "0 \<le> n"
  shows "\<exists>xs g1. samples f n g = (Inr xs, g1) \<and> length xs = nat n"
proof -
  obtain xs g1 where d: "draw f (nat n) g = (xs, g1)" by (cases "draw f (nat n) g")
  then have "samples f n g = (Inr xs, g1)" using assms by (simp add: samples_def)
  moreover have "length xs = nat n" using d by (rule draw_length)
  ultimately show ?thesis by simp
qed

lemma frame_xy_shape:
  "length x = k \<Longrightarrow> length y = k \<Longrightarrow>
     length (rows (frame_xy x y)) = k \<and> length (index (frame_xy x y)) = k
     \<and> columns (frame_xy x y) = [Name (str ''x''), Name (str ''y'')]
     \<and> (\<forall>r \<in> set (rows (frame_xy x y)). length r = 2)"
  by (auto simp: frame_xy_def)

lemma generate_data_frame:
  assumes n: "0 \<le> n"
  shows "\<exists>x y g1. generate_data rnd n distribution g = (Inr (frame_xy x y), g1)
           \<and> length x = nat n \<and> length y = nat n"
proof -
  define f where "f = (if distribution = str ''Normal'' then normal_sample rnd
               else if distribution = str ''Uniform'' then uniform_sample rnd (- 3) 3
               else exponential_sample rnd 1)"
  obtain x g1 where x: "samples f n g = (Inr x, g1)" "length x = nat n"
    using samples_length [OF n, of f g] by auto
  obtain y g2 where y: "samples f n g1 = (Inr y, g2)" "length y = nat n"
    using samples_length [OF n, of f g1] by auto
  have "generate_data rnd n distribution g = (Inr (frame_xy x y), g2)"
    unfolding generate_data_def Let_def f_def [symmetric] using x(1) y(1) by simp
  then show ?thesis using x(2) y(2) by blast
qed


text \<open>
  C10: for every slider value \<open>n\<close> from 10 to 500 and each of the distributions
  \<open>Normal\<close>, \<open>Uniform\<close> and \<open>Exponential\<close>, \<open>generate_data\<close> returns a DataFrame of
  exactly \<open>n\<close> rows and exactly the two columns \<open>x\<close> and \<open>y\<close>, and \<open>data_table\<close>
  shows the first 10 rows of that frame, so at most 10 rows.
\<close>

theorem generate_data_shape:
  assumes "10 \<le> n" and "n \<le> 500"
    and "distribution \<in> {str ''Normal'', str ''Uniform'', str ''Exponential''}"
  shows "\<exists>df g1. generate_data rnd n distribution g = (Inr df, g1)
           \<and> length (rows df) = nat n \<and> length (index df) = nat n
           \<and> columns df = [Name (str ''x''), Name (str ''y'')]
           \<and> (\<forall>r \<in> set (rows df). length r = 2)
           \<and> data_table rnd n distribution g = (Inr (head 10 df), g1)
           \<and> rows (head 10 df) = take 10 (rows df)
           \<and> columns (head 10 df) = columns df
           \<and> length (rows (head 10 df)) \<le> 10"
proof -
  have "0 \<le> n" using assms(1) by simp
  from generate_data_frame [OF this, of rnd distribution g]
  obtain x y g1 where gd: "generate_data rnd n distribution g = (Inr (frame_xy x y), g1)"
    and x: "length x = nat n" and y: "length y = nat n"
    by auto
  have dt: "data_table rnd n distribution g = (Inr (head 10 (frame_xy x y)), g1)"
    using gd by (simp add: data_table_def)
  have hd: "rows (head 10 (frame_xy x y)) = take 10 (rows (frame_xy x y))"
    "columns (head 10 (frame_xy x y)) = columns (frame_xy x y)"
    "length (rows (head 10 (frame_xy x y))) \<le> 10"
    by (simp_all add: head_def)
  show ?thesis
    apply (rule exI [of _ "frame_xy x y"])
    apply (rule exI [of _ g1])
    using gd dt hd frame_xy_shape [OF x y] apply simp
    done
qed

theorem generate_data_shape_witness:
  "(10::int) \<le> 10 \<and> (10::int) \<le> 500
   \<and> str ''Normal'' \<in> {str ''Normal'', str ''Uniform'', str ''Exponential''}
   \<and> (\<exists>df g1. generate_data counter 10 (str ''Normal'') 0 = (Inr df, g1)
           \<and> length (rows df) = nat 10 \<and> length (index df) = nat 10
           \<and> columns df = [Name (str ''x''), Name (str ''y'')]
           \<and> (\<forall>r \<in> set (rows df). length r = 2)
           \<and> data_table counter 10 (str ''Normal'') 0 = (Inr (head 10 df), g1)
           \<and> rows (head 10 df) = take 10 (rows df)
           \<and> columns (head 10 df) = columns df
           \<and> length (rows (head 10 df)) \<le> 10)"
proof -
  have a: "(10::int) \<le> 10" and b: "(10::int) \<le> 500" by simp_all
  have c: "str ''Normal'' \<in> {str ''Normal'', str ''Uniform'', str ''Exponential''}"
    by (rule insertI1)
  from generate_data_shape [OF a b c, of counter 0] a b c show ?thesis
    by (intro conjI)
qed


section \<open>Properties of the prediction endpoint\<close>

lemma list_index_three:
  assumes "list_index [a, b, c] k = Inr x"
  shows "- 3 \<le> k \<and> k \<le> 2 \<and> x = [a, b, c] ! nat (k mod 3)
         \<and> (0 \<le> k \<longrightarrow> x = [a, b, c] ! nat k)"
proof -
  have r: "- 3 \<le> k \<and> k \<le> 2"
    using assms by (auto simp: list_index_def split: if_splits)
  then consider "k = - 3" | "k = - 2" | "k = - 1" | "k = 0" | "k = 1" | "k = 2"
    by arith
  then show ?thesis using assms
    by cases (auto simp: list_index_def split: if_splits)
qed

lemma predict_try_Inr:
  assumes "fst (predict_try model input_data s) = Inr r"
  shows "\<exists>p s1. model_predict model
            [[sepal_length input_data, sepal_width input_data,
              petal_length input_data, petal_width input_data]] s = (Inr p, s1)
          \<and> array_first p = Inr (prediction_code r)
          \<and> list_index [str ''setosa'', str ''versicolor'', str ''virginica'']
               (prediction_code r) = Inr (prediction r)"
  using assms
  by (auto simp: predict_try_def Let_def split: prod.splits sum.splits)

lemma predict_Inr:
  "fst (predict model input_data s) = Inr r \<longleftrightarrow> fst (predict_try model input_data s) = Inr r"
  by (auto simp: predict_def split: prod.splits sum.splits)

lemma predict_known_label:
  assumes "fst (predict model input_data s) = Inr r"
  shows "prediction r \<in> {str ''setosa'', str ''versicolor'', str ''virginica''}"
proof -
  from assms have "fst (predict_try model input_data s) = Inr r"
    by (simp add: predict_Inr)
  from predict_try_Inr [OF this] have
    "list_index [str ''setosa'', str ''versicolor'', str ''virginica'']
       (prediction_code r) = Inr (prediction r)"
    by blast
  from list_index_three [OF this] have
    p: "prediction r = [str ''setosa'', str ''versicolor'', str ''virginica'']
          ! nat (prediction_code r mod 3)"
    by simp
  have "nat (prediction_code r mod 3) < 3" by simp
  then consider "nat (prediction_code r mod 3) = 0" | "nat (prediction_code r mod 3) = 1"
    | "nat (prediction_code r mod 3) = 2" by linarith
  then show ?thesis using p by cases simp_all
qed

text \<open>
  C3: for every well-formed input of four floats, a successful response of the predict
  endpoint has its \<open>prediction\<close> field equal to one of the three labels \<open>setosa\<close>,
  \<open>versicolor\<close>, \<open>virginica\<close>.
\<close>

theorem predict_label:
  "fst (predict model input_data s) = Inr r \<Longrightarrow>
     prediction r \<in> {str ''setosa'', str ''versicolor'', str ''virginica''}"
  by (rule predict_known_label)

theorem predict_label_witness:
  "fst (predict (constant_model 1) flower0 ())
     = Inr \<lparr>prediction = str ''versicolor'', prediction_code = 1\<rparr>
   \<and> prediction \<lparr>prediction = str ''versicolor'', prediction_code = 1\<rparr>
       \<in> {str ''setosa'', str ''versicolor'', str ''virginica''}"
  using predict_label [of "constant_model 1" flower0 "()"
      "\<lparr>prediction = str ''versicolor'', prediction_code = 1\<rparr>"]
  by (simp add: predict_def predict_try_def constant_model_def flower0_def array_first_def
      list_index_def)

text \<open>
  C4, as amended: for every well-formed four-float input, the handler of
  \<open>POST /predict/\<close> either returns a response with a species label and a numeric code,
  or raises an \<open>HTTPException\<close> with status 500 whose detail is the string form of the
  exception that ended its \<open>try\<close> block, when that exception derives from
  \<open>Exception\<close>, or lets through an exception of the classifier's \<open>predict\<close> that
  does not derive from \<open>Exception\<close>; there is no other outcome.
\<close>

theorem predict_outcomes:
  "(\<exists>r. fst (predict model input_data s) = Inr r
        \<and> prediction r \<in> {str ''setosa'', str ''versicolor'', str ''virginica''})
   \<or> (\<exists>e. fst (predict_try model input_data s) = Inl e \<and> is_Exception e
        \<and> fst (predict model input_data s) = Inl (HTTPException 500 (exn_str e)))
   \<or> (\<exists>e. fst (predict_try model input_data s) = Inl e \<and> \<not> is_Exception e
        \<and> fst (predict model input_data s) = Inl (Uncaught e)
        \<and> fst (model_predict model
                 [[sepal_length input_data, sepal_width input_data,
                   petal_length input_data, petal_width input_data]] s) = Inl e)"
proof (cases "fst (predict_try model input_data s)")
  case (Inl e)
  show ?thesis
  proof (cases "is_Exception e")
    case True
    then have "fst (predict model input_data s) = Inl (HTTPException 500 (exn_str e))"
      using Inl by (auto simp: predict_def split: prod.splits sum.splits)
    then show ?thesis using Inl True by blast
  next
    case False
    then have "fst (predict model input_data s) = Inl (Uncaught e)"
      using Inl by (auto simp: predict_def split: prod.splits sum.splits)
    moreover have "fst (model_predict model
                 [[sepal_length input_data, sepal_width input_data,
                   petal_length input_data, petal_width input_data]] s) = Inl e"
      using Inl False
      by (auto simp: predict_try_def Let_def array_first_def list_index_def
          split: prod.splits sum.splits list.splits if_splits)
    ultimately show ?thesis using Inl False by blast
  qed
next
  case (Inr r)
  then have "fst (predict model input_data s) = Inr r" by (simp add: predict_Inr)
  moreover from this have "prediction r \<in> {str ''setosa'', str ''versicolor'', str ''virginica''}"
    by (rule predict_known_label)
  ultimately show ?thesis by blast
qed

theorem predict_outcomes_witness:
  "fst (predict_try (raising_model interrupt) flower0 ()) = Inl interrupt
   \<and> \<not> is_Exception interrupt
   \<and> fst (predict (raising_model interrupt) flower0 ()) = Inl (Uncaught interrupt)"
  using predict_outcomes [of "raising_model interrupt" flower0 "()"]
  by (simp add: predict_def predict_try_def raising_model_def interrupt_def)

text \<open>
  With the first two outcomes only the property fails: a \<open>KeyboardInterrupt\<close> raised
  while the classifier predicts leaves the handler as it is.
\<close>

theorem predict_outcomes_counterexample:
  "fst (predict (raising_model interrupt) flower0 ()) = Inl (Uncaught interrupt)
   \<and> Uncaught interrupt \<noteq> HTTPException 500 (exn_str interrupt)"
  by (simp add: predict_def predict_try_def raising_model_def interrupt_def)

text \<open>
  C7: for every well-formed four-float input, the predict endpoint calls the model's
  \<open>predict\<close> once, with the single row of the four values of the request body, in the
  order sepal length, sepal width, petal length, petal width, each as it was received:
  that array is what a classifier that writes down its arguments has seen.
\<close>

theorem predict_forwards:
  "snd (snd (predict (recording model) input_data (s, seen)))
     = seen @ [[[sepal_length input_data, sepal_width input_data,
                 petal_length input_data, petal_width input_data]]]"
  by (simp add: predict_def predict_try_def recording_def Let_def
      split: prod.splits sum.splits)

text \<open>
  C9: with a classifier whose classes are 0, 1 and 2, as the source expects of it, in
  every successful response of the handler \<open>prediction_code\<close> is 0, 1 or 2 and
  \<open>prediction\<close> is the label at that index of \<open>setosa\<close>, \<open>versicolor\<close>,
  \<open>virginica\<close>.
\<close>

theorem predict_code_label:
  assumes "iris_classes model" and "fst (predict model input_data s) = Inr r"
  shows "prediction_code r \<in> {0, 1, 2}
         \<and> prediction r = [str ''setosa'', str ''versicolor'', str ''virginica'']
               ! nat (prediction_code r)"
proof -
  from assms(2) have "fst (predict_try model input_data s) = Inr r"
    by (simp add: predict_Inr)
  from predict_try_Inr [OF this] obtain p s1 where
    m: "model_predict model
            [[sepal_length input_data, sepal_width input_data,
              petal_length input_data, petal_width input_data]] s = (Inr p, s1)"
    and f: "array_first p = Inr (prediction_code r)"
    and l: "list_index [str ''setosa'', str ''versicolor'', str ''virginica'']
               (prediction_code r) = Inr (prediction r)"
    by blast
  from m assms(1) have "set p \<subseteq> {0, 1, 2}"
    unfolding iris_classes_def by (metis fst_conv)
  moreover from f have "prediction_code r \<in> set p"
    by (cases p) (simp_all add: array_first_def)
  ultimately have c: "prediction_code r \<in> {0, 1, 2}" by blast
  then have "0 \<le> prediction_code r" by auto
  with list_index_three [OF l] c show ?thesis by simp
qed

theorem predict_code_label_witness:
  "iris_classes (constant_model 2 :: (real list list, real, unit) classifier)
   \<and> fst (predict (constant_model 2) flower0 ())
       = Inr \<lparr>prediction = str ''virginica'', prediction_code = 2\<rparr>
   \<and> prediction_code \<lparr>prediction = str ''virginica'', prediction_code = 2\<rparr> \<in> {0, 1, 2}
   \<and> prediction \<lparr>prediction = str ''virginica'', prediction_code = 2\<rparr>
       = [str ''setosa'', str ''versicolor'', str ''virginica''] ! nat 2"
proof -
  have a: "iris_classes (constant_model 2 :: (real list list, real, unit) classifier)"
    by (simp add: iris_classes_def constant_model_def)
  have b: "fst (predict (constant_model 2) flower0 ())
       = Inr \<lparr>prediction = str ''virginica'', prediction_code = 2\<rparr>"
    by (simp add: predict_def predict_try_def constant_model_def flower0_def array_first_def
      list_index_def)
  from predict_code_label [OF a b] a b show ?thesis by simp
qed


section \<open>Properties of the transcript loader\<close>

lemma try_raise_empty:
  "get_transcript_content_try env url c0 w = (Inl e, c1, w1) \<Longrightarrow>
     c1 = c0 \<and> shown w1 = shown w
     \<and> (fetched w1 = fetched w \<or> (\<exists>vid. fetched w1 = fetched w @ [vid]))"
  by (auto simp: get_transcript_content_try_def Let_def
      split: sum.splits option.splits if_splits)

lemma try_return:
  "get_transcript_content_try env url c0 w = (Inr (Some v), c1, w1) \<Longrightarrow>
     v = c0 \<and> w1 = st_show (Error (str ''Invalid YouTube URL'')) w"
  by (auto simp: get_transcript_content_try_def Let_def
      split: sum.splits option.splits if_splits)

lemma try_end:
  "get_transcript_content_try env url c0 w = (Inr None, c1, w1) \<Longrightarrow>
     \<exists>vid ts vs s. get_transcript env vid = Inr ts \<and> texts ts = Inr vs
        \<and> join_values (str '' '') vs = Inr s \<and> c1 = clean_transcript s
        \<and> w1 = w\<lparr>fetched := fetched w @ [vid]\<rparr>"
  by (auto simp: get_transcript_content_try_def Let_def
      split: sum.splits option.splits if_splits)

lemma try_raise_after_fetch:
  "get_transcript_content_try env url c0 w = (Inl e1, c1, w1) \<Longrightarrow>
     fetched w1 = fetched w @ [vid] \<Longrightarrow> get_transcript env vid = Inl e \<Longrightarrow> e1 = e"
  by (auto simp: get_transcript_content_try_def Let_def
      split: sum.splits option.splits if_splits)

lemma texts_raises: "texts ts = Inl e \<Longrightarrow> is_Exception e"
proof (induction ts)
  case Nil
  then show ?case by simp
next
  case (Cons t ts)
  then show ?case by (auto split: option.splits sum.splits)
qed

lemma str_items_raises: "str_items i vs = Inl e \<Longrightarrow> is_Exception e"
proof (induction i vs rule: str_items.induct)
  case (1 i)
  then show ?case by simp
next
  case (2 i s vs)
  then show ?case by (auto split: sum.splits)
next
  case (3 i ty vs)
  then show ?case by auto
qed

lemma join_values_raises: "join_values sep vs = Inl e \<Longrightarrow> is_Exception e"
  by (auto simp: join_values_def dest: str_items_raises split: sum.splits)

lemma list_index_raises: "list_index xs i = Inl e \<Longrightarrow> is_Exception e"
  by (auto simp: list_index_def split: if_splits)

lemma try_raise_source:
  assumes "get_transcript_content_try env url c0 w = (Inl e, c1, w1)"
    and "\<not> is_Exception e"
  shows "urlparse env url = Inl e
         \<or> (\<exists>p. urlparse env url = Inr p \<and> parse_qs env (query p) = Inl e)
         \<or> (\<exists>vid. get_transcript env vid = Inl e \<and> fetched w1 = fetched w @ [vid])"
  using assms
  by (auto simp: get_transcript_content_try_def Let_def
      dest: texts_raises join_values_raises list_index_raises
      split: sum.splits option.splits if_splits)


lemma get_transcript_content_cases:
  "(\<exists>c w1. get_transcript_content env url w = (Inr c, w1)
      \<and> ((c = [] \<and> (\<exists>msg. shown w1 = shown w @ [Error msg]))
         \<or> (shown w1 = shown w
             \<and> (\<exists>vid ts vs s. get_transcript env vid = Inr ts \<and> texts ts = Inr vs
                   \<and> join_values (str '' '') vs = Inr s \<and> c = clean_transcript s
                   \<and> fetched w1 = fetched w @ [vid]))))
   \<or> (\<exists>e w1. get_transcript_content env url w = (Inl e, w1)
         \<and> \<not> is_Exception e \<and> shown w1 = shown w
         \<and> (urlparse env url = Inl e
            \<or> (\<exists>p. urlparse env url = Inr p \<and> parse_qs env (query p) = Inl e)
            \<or> (\<exists>vid. get_transcript env vid = Inl e \<and> fetched w1 = fetched w @ [vid])))"
proof -
  obtain r c1 w1 where t: "get_transcript_content_try env url [] w = (r, c1, w1)"
    by (cases "get_transcript_content_try env url [] w")
  show ?thesis
  proof (cases r)
    case (Inl e)
    with t try_raise_empty [of env url "[]" w e c1 w1]
    have c1: "c1 = []" and sh: "shown w1 = shown w" by simp_all
    show ?thesis
    proof (cases "is_Exception e")
      case True
      then have "get_transcript_content env url w
          = (Inr [], st_show (Error (str ''Error getting transcript: '' @ exn_str e)) w1)"
        using t Inl c1 by (simp add: get_transcript_content_def)
      then show ?thesis using sh by (simp add: st_show_def)
    next
      case False
      then have g: "get_transcript_content env url w = (Inl e, w1)"
        using t Inl by (simp add: get_transcript_content_def)
      from try_raise_source [of env url "[]" w e c1 w1] t Inl False
      have "urlparse env url = Inl e
            \<or> (\<exists>p. urlparse env url = Inr p \<and> parse_qs env (query p) = Inl e)
            \<or> (\<exists>vid. get_transcript env vid = Inl e \<and> fetched w1 = fetched w @ [vid])"
        by simp
      then show ?thesis using g False sh by simp
    qed
  next
    case (Inr ret)
    show ?thesis
    proof (cases ret)
      case None
      with t Inr try_end [of env url "[]" w c1 w1]
      obtain vid ts vs s where "get_transcript env vid = Inr ts" "texts ts = Inr vs"
        "join_values (str '' '') vs = Inr s" "c1 = clean_transcript s"
        "w1 = w\<lparr>fetched := fetched w @ [vid]\<rparr>"
        by auto
      then show ?thesis using t Inr None
        by (auto simp: get_transcript_content_def)
    next
      case (Some v)
      with t Inr try_return [of env url "[]" w v c1 w1]
      have "v = []" "w1 = st_show (Error (str ''Invalid YouTube URL'')) w" by simp_all
      then show ?thesis using t Inr Some
        by (simp add: get_transcript_content_def st_show_def)
    qed
  qed
qed




text \<open>
  C6: for every URL whose query parameters, as \<open>parse_qs\<close> gives them, have no \<open>v\<close> or
  an empty first \<open>v\<close>, \<open>get_transcript_content\<close> shows the error
  \<open>Invalid YouTube URL\<close> and returns the empty string, and no transcript is requested.
\<close>

theorem get_transcript_content_invalid_url:
  assumes "urlparse env url = Inr p" and "parse_qs env (query p) = Inr q"
    and "q (str ''v'') = None \<or> (\<exists>vs. q (str ''v'') = Some ([] # vs))"
  shows "get_transcript_content env url w
           = (Inr [], w\<lparr>shown := shown w @ [Error (str ''Invalid YouTube URL'')]\<rparr>)
         \<and> fetched (snd (get_transcript_content env url w)) = fetched w"
proof -
  have "get_transcript_content_try env url [] w
          = (Inr (Some []), [], st_show (Error (str ''Invalid YouTube URL'')) w)"
    using assms
    by (auto simp: get_transcript_content_try_def list_index_def)
  then show ?thesis
    by (simp add: get_transcript_content_def st_show_def)
qed

theorem get_transcript_content_invalid_url_witness:
  "urlparse no_video_env no_video_url
     = Inr \<lparr>scheme = str ''https'', netloc = str ''www.youtube.com'', path = str ''/watch'',
            params = [], query = str ''t=1369s'', fragment = []\<rparr>
   \<and> parse_qs no_video_env (str ''t=1369s'') = Inr [str ''t'' \<mapsto> [str ''1369s'']]
   \<and> [str ''t'' \<mapsto> [str ''1369s'']] (str ''v'') = None
   \<and> get_transcript_content no_video_env no_video_url world0
       = (Inr [], world0\<lparr>shown := shown world0 @ [Error (str ''Invalid YouTube URL'')]\<rparr>)
   \<and> fetched (snd (get_transcript_content no_video_env no_video_url world0)) = fetched world0"
proof -
  have a: "urlparse no_video_env no_video_url
     = Inr \<lparr>scheme = str ''https'', netloc = str ''www.youtube.com'', path = str ''/watch'',
            params = [], query = str ''t=1369s'', fragment = []\<rparr>"
    by (simp add: no_video_env_def stub_env_def)
  have b: "parse_qs no_video_env
      (query \<lparr>scheme = str ''https'', netloc = str ''www.youtube.com'', path = str ''/watch'',
            params = [], query = str ''t=1369s'', fragment = []\<rparr>)
      = Inr [str ''t'' \<mapsto> [str ''1369s'']]"
    by (simp add: no_video_env_def stub_env_def)
  have c: "[str ''t'' \<mapsto> [str ''1369s'']] (str ''v'') = None"
    by (simp add: str_def)
  from c have d: "[str ''t'' \<mapsto> [str ''1369s'']] (str ''v'') = None
      \<or> (\<exists>vs. [str ''t'' \<mapsto> [str ''1369s'']] (str ''v'') = Some ([] # vs))"
    by (rule disjI1)
  from get_transcript_content_invalid_url [OF a b d, of world0] a b c show ?thesis
    by simp
qed


section \<open>Exception handlers around the external calls\<close>

lemma load_block_raises: "fst (load_block env url w) = Inl e \<Longrightarrow> \<not> is_Exception e"
proof -
  assume a: "fst (load_block env url w) = Inl e"
  from get_transcript_content_cases [of env url w]
  consider c w1 where "get_transcript_content env url w = (Inr c, w1)"
    | e1 w1 where "get_transcript_content env url w = (Inl e1, w1)" "\<not> is_Exception e1"
    by blast
  then show ?thesis
  proof cases
    case 1
    then show ?thesis using a by (simp add: load_block_def split: if_splits)
  next
    case 2
    then show ?thesis using a by (simp add: load_block_def)
  qed
qed

lemma analysis_block_raises:
  "fst (analysis_block env inp question w) = Inl e \<Longrightarrow> \<not> is_Exception e"
  by (auto simp: analysis_block_def Let_def split: sum.splits if_splits)

lemma question_buttons_keeps:
  "content (question_buttons inp qs w) = content w
   \<and> shown (question_buttons inp qs w) = shown w"
  by (induction qs arbitrary: w) auto

lemma main_page_raises: "fst (main_page env inp w) = Inl e \<Longrightarrow> \<not> is_Exception e"
proof -
  assume a: "fst (main_page env inp w) = Inl e"
  let ?w1 = "st_show (Markdown intro_markdown) w"
  obtain r2 w2 where l: "(if load_clicked inp then load_block env (url_text inp) ?w1
                       else (Inr (), ?w1)) = (r2, w2)"
    by (cases "if load_clicked inp then load_block env (url_text inp) ?w1 else (Inr (), ?w1)")
  show ?thesis
  proof (cases r2)
    case (Inl e1)
    then have "load_clicked inp" and "fst (load_block env (url_text inp) ?w1) = Inl e1"
      using l by (auto split: if_splits)
    then have "\<not> is_Exception e1" using load_block_raises by blast
    moreover have "e = e1" using a l Inl unfolding main_page_def Let_def by simp
    ultimately show ?thesis by simp
  next
    case (Inr u)
    then show ?thesis
      using a l analysis_block_raises unfolding main_page_def Let_def
      by (auto split: if_splits)
  qed
qed

lemma main_page_shows_error:
  assumes ch: "\<forall>c q. chain_invoke env c q = Inl e" and ex: "is_Exception e"
    and ok: "fst (main_page env inp w) = Inr ()"
    and co: "content (snd (main_page env inp w)) \<noteq> []"
    and qu: "\<forall>d. question_text inp d \<noteq> []"
  shows "\<exists>pre. shown (snd (main_page env inp w))
           = pre @ [Error (str ''Error: '' @ exn_str e),
                    Info (str ''Make sure Ollama is running with the correct model'')]"
proof -
  let ?w1 = "st_show (Markdown intro_markdown) w"
  obtain r2 w2 where l: "(if load_clicked inp then load_block env (url_text inp) ?w1
                       else (Inr (), ?w1)) = (r2, w2)"
    by (cases "if load_clicked inp then load_block env (url_text inp) ?w1 else (Inr (), ?w1)")
  have an: "analysis_block env inp question v
      = (Inr (), st_show (Info (str ''Make sure Ollama is running with the correct model''))
                   (st_show (Error (str ''Error: '' @ exn_str e)) v))" for question v
    using ch ex by (simp add: analysis_block_def Let_def)
  show ?thesis
  proof (cases r2)
    case (Inl e1)
    then show ?thesis using ok l unfolding main_page_def Let_def by simp
  next
    case (Inr u)
    show ?thesis
    proof (cases "content w2 = []")
      case True
      then show ?thesis using co l Inr unfolding main_page_def Let_def by simp
    next
      case False
      then show ?thesis
        using l Inr qu an unfolding main_page_def Let_def
        by (simp add: st_show_def)
    qed
  qed
qed


lemma fetch_error_shown:
  assumes "get_transcript env vid = Inl e" and "is_Exception e"
    and "fetched (snd (get_transcript_content env url w)) = fetched w @ [vid]"
  shows "get_transcript_content env url w
           = (Inr [], w\<lparr>fetched := fetched w @ [vid],
                         shown := shown w @ [Error (str ''Error getting transcript: ''
                                                    @ exn_str e)]\<rparr>)"
proof -
  obtain r c1 w1 where t: "get_transcript_content_try env url [] w = (r, c1, w1)"
    by (cases "get_transcript_content_try env url [] w")
  show ?thesis
  proof (cases r)
    case (Inl e1)
    have f: "fetched w1 = fetched w @ [vid]"
      using assms(3) t Inl
      by (simp add: get_transcript_content_def st_show_def split: if_splits)
    have e: "e1 = e"
      using try_raise_after_fetch [of env url "[]" w e1 c1 w1 vid e] t Inl f assms(1) by simp
    have w1: "w1 = w\<lparr>fetched := fetched w @ [vid]\<rparr>"
      using t Inl f
      by (auto simp: get_transcript_content_try_def Let_def st_show_def
          split: sum.splits option.splits if_splits)
    have "c1 = []" using try_raise_empty [of env url "[]" w e1 c1 w1] t Inl by simp
    then show ?thesis using t Inl e assms(2) w1
      by (simp add: get_transcript_content_def st_show_def)
  next
    case (Inr ret)
    show ?thesis
    proof (cases ret)
      case None
      with t Inr try_end [of env url "[]" w c1 w1]
      obtain v ts where "get_transcript env v = Inr ts" "w1 = w\<lparr>fetched := fetched w @ [v]\<rparr>"
        by auto
      then have False using assms t Inr None
        by (auto simp: get_transcript_content_def)
      then show ?thesis ..
    next
      case (Some v)
      with t Inr try_return [of env url "[]" w v c1 w1]
      have "w1 = st_show (Error (str ''Invalid YouTube URL'')) w" by simp
      then have False using assms(3) t Inr Some
        by (simp add: get_transcript_content_def st_show_def)
      then show ?thesis ..
    qed
  qed
qed

lemma get_transcript_content_raises:
  "fst (get_transcript_content env url w) = Inl e \<Longrightarrow> \<not> is_Exception e"
  using get_transcript_content_cases [of env url w] by auto

text \<open>
  C2, as amended: in the transcript script and in the FastAPI script every external call
  is inside an \<open>except Exception\<close> handler at the call site. \<open>get_transcript_content\<close>
  and \<open>main_page\<close> let no exception out that derives from \<open>Exception\<close>; such an
  exception of the transcript fetch is shown as \<open>Error getting transcript:\<close> with its
  text and the empty string is returned, one of \<open>chain.invoke\<close> is shown by the page
  as \<open>Error:\<close> with its text, and one of the classifier's \<open>predict\<close> in the FastAPI
  handler becomes an \<open>HTTPException\<close> with status 500 and its text as detail. The
  Streamlit classifier script has no handler: an exception of \<open>model.predict\<close> or of
  \<open>model.predict_proba\<close> leaves the script.
\<close>

theorem handlers_surface_exceptions:
  "(fst (get_transcript_content env url w) = Inl e0 \<longrightarrow> \<not> is_Exception e0)
   \<and> (get_transcript env vid = Inl e1 \<and> is_Exception e1
        \<and> fetched (snd (get_transcript_content env url w)) = fetched w @ [vid]
      \<longrightarrow> get_transcript_content env url w
            = (Inr [], w\<lparr>fetched := fetched w @ [vid],
                          shown := shown w @ [Error (str ''Error getting transcript: ''
                                                     @ exn_str e1)]\<rparr>))
   \<and> (fst (main_page env inp w) = Inl e0 \<longrightarrow> \<not> is_Exception e0)
   \<and> ((\<forall>c q. chain_invoke env c q = Inl e2) \<and> is_Exception e2
        \<and> fst (main_page env inp w) = Inr ()
        \<and> content (snd (main_page env inp w)) \<noteq> []
        \<and> (\<forall>d. question_text inp d \<noteq> [])
      \<longrightarrow> (\<exists>pre. shown (snd (main_page env inp w))
            = pre @ [Error (str ''Error: '' @ exn_str e2),
                     Info (str ''Make sure Ollama is running with the correct model'')]))
   \<and> (chain_invoke env (content w)
          (if use_bullets inp \<and> \<not> contains (str ''bullet points'') (lower env question)
           then question @ bullet_suffix else question) = Inl e2
        \<and> is_Exception e2
      \<longrightarrow> analysis_block env inp question w
            = (Inr (), st_show (Info (str ''Make sure Ollama is running with the correct model''))
                         (st_show (Error (str ''Error: '' @ exn_str e2)) w)))
   \<and> (model_predict model [[sepal_length input_data, sepal_width input_data,
                             petal_length input_data, petal_width input_data]] s
          = (Inl e3, s1)
        \<and> is_Exception e3
      \<longrightarrow> predict model input_data s = (Inl (HTTPException 500 (exn_str e3)), s1))
   \<and> (model_predict smodel (user_input_features sl) t = (Inl e4, t1)
      \<longrightarrow> fst (iris_streamlit_app smodel sl t) = Inl e4)
   \<and> (model_predict smodel (user_input_features sl) t = (Inr p, t1)
        \<and> model_predict_proba smodel (user_input_features sl) t1 = (Inl e5, t2)
      \<longrightarrow> fst (iris_streamlit_app smodel sl t) = Inl e5)"
proof (intro conjI impI)
  assume "fst (get_transcript_content env url w) = Inl e0"
  then show "\<not> is_Exception e0" by (rule get_transcript_content_raises)
next
  assume "get_transcript env vid = Inl e1 \<and> is_Exception e1
        \<and> fetched (snd (get_transcript_content env url w)) = fetched w @ [vid]"
  then show "get_transcript_content env url w
            = (Inr [], w\<lparr>fetched := fetched w @ [vid],
                          shown := shown w @ [Error (str ''Error getting transcript: ''
                                                     @ exn_str e1)]\<rparr>)"
    using fetch_error_shown by blast
next
  assume "fst (main_page env inp w) = Inl e0"
  then show "\<not> is_Exception e0" by (rule main_page_raises)
next
  assume "(\<forall>c q. chain_invoke env c q = Inl e2) \<and> is_Exception e2
        \<and> fst (main_page env inp w) = Inr ()
        \<and> content (snd (main_page env inp w)) \<noteq> []
        \<and> (\<forall>d. question_text inp d \<noteq> [])"
  then show "\<exists>pre. shown (snd (main_page env inp w))
            = pre @ [Error (str ''Error: '' @ exn_str e2),
                     Info (str ''Make sure Ollama is running with the correct model'')]"
    using main_page_shows_error [of env e2 inp w] by blast
next
  assume "chain_invoke env (content w)
          (if use_bullets inp \<and> \<not> contains (str ''bullet points'') (lower env question)
           then question @ bullet_suffix else question) = Inl e2
        \<and> is_Exception e2"
  then show "analysis_block env inp question w
            = (Inr (), st_show (Info (str ''Make sure Ollama is running with the correct model''))
                         (st_show (Error (str ''Error: '' @ exn_str e2)) w))"
    by (simp add: analysis_block_def Let_def)
next
  assume "model_predict model [[sepal_length input_data, sepal_width input_data,
                             petal_length input_data, petal_width input_data]] s
          = (Inl e3, s1)
        \<and> is_Exception e3"
  then show "predict model input_data s = (Inl (HTTPException 500 (exn_str e3)), s1)"
    by (simp add: predict_def predict_try_def)
next
  assume "model_predict smodel (user_input_features sl) t = (Inl e4, t1)"
  then show "fst (iris_streamlit_app smodel sl t) = Inl e4"
    by (simp add: iris_streamlit_app_def Let_def)
next
  assume "model_predict smodel (user_input_features sl) t = (Inr p, t1)
        \<and> model_predict_proba smodel (user_input_features sl) t1 = (Inl e5, t2)"
  then show "fst (iris_streamlit_app smodel sl t) = Inl e5"
    by (simp add: iris_streamlit_app_def Let_def)
qed


theorem handlers_surface_exceptions_witness:
  "fst (get_transcript_content (video_env interrupt) video_url world1) = Inl interrupt
   \<and> \<not> is_Exception interrupt
   \<and> get_transcript (video_env refused) (str ''LWMzyfvuehA'') = Inl refused
   \<and> is_Exception refused
   \<and> fetched (snd (get_transcript_content (video_env refused) video_url world1))
       = fetched world1 @ [str ''LWMzyfvuehA'']
   \<and> get_transcript_content (video_env refused) video_url world1
       = (Inr [], world1\<lparr>fetched := fetched world1 @ [str ''LWMzyfvuehA''],
                          shown := shown world1 @ [Error (str ''Error getting transcript: ''
                                                         @ exn_str refused)]\<rparr>)
   \<and> fst (main_page (video_env interrupt) inputs0 world1) = Inl interrupt
   \<and> (\<forall>c q. chain_invoke (video_env refused) c q = Inl refused)
   \<and> fst (main_page (video_env refused) inputs0 world1) = Inr ()
   \<and> content (snd (main_page (video_env refused) inputs0 world1)) \<noteq> []
   \<and> (\<forall>d. question_text inputs0 d \<noteq> [])
   \<and> (\<exists>pre. shown (snd (main_page (video_env refused) inputs0 world1))
         = pre @ [Error (str ''Error: '' @ exn_str refused),
                  Info (str ''Make sure Ollama is running with the correct model'')])
   \<and> analysis_block (video_env refused) inputs0 (str ''What is said about lists?'') world1
       = (Inr (), st_show (Info (str ''Make sure Ollama is running with the correct model''))
                    (st_show (Error (str ''Error: '' @ exn_str refused)) world1))
   \<and> predict (raising_model refused) flower0 ()
       = (Inl (HTTPException 500 (exn_str refused)), ())
   \<and> fst (iris_streamlit_app (raising_model refused) sliders0 ()) = Inl refused
   \<and> fst (iris_streamlit_app (raising_proba_model refused) sliders0 ()) = Inl refused"
proof -
  note A = handlers_surface_exceptions [where env = "video_env interrupt" and url = video_url
      and w = world1 and ?e0.0 = interrupt and inp = inputs0]
  note B = handlers_surface_exceptions [where env = "video_env refused" and url = video_url
      and w = world1 and vid = "str ''LWMzyfvuehA''" and ?e1.0 = refused and ?e2.0 = refused
      and inp = inputs0 and question = "str ''What is said about lists?''"
      and model = "raising_model refused" and input_data = flower0 and s = "()" and ?s1.0 = "()"
      and ?e3.0 = refused and smodel = "raising_model refused" and sl = sliders0
      and t = "()" and ?t1.0 = "()" and ?e4.0 = refused]
  note C = handlers_surface_exceptions [where smodel = "raising_proba_model refused"
      and sl = sliders0 and t = "()" and ?t1.0 = "()" and ?t2.0 = "()" and p = "[0]"
      and ?e5.0 = refused]
  have a1: "fst (get_transcript_content (video_env interrupt) video_url world1) = Inl interrupt"
    by (simp add: get_transcript_content_def get_transcript_content_try_def video_env_def
        stub_env_def list_index_def interrupt_def str_def)
  have a3: "fst (main_page (video_env interrupt) inputs0 world1) = Inl interrupt"
    by (simp add: main_page_def analysis_block_def video_env_def stub_env_def inputs0_def
        world1_def st_show_def interrupt_def SUGGESTED_QUESTIONS_def str_def)
  have b1: "get_transcript (video_env refused) (str ''LWMzyfvuehA'') = Inl refused"
    by (simp add: video_env_def stub_env_def)
  have b2: "is_Exception refused" by (simp add: refused_def)
  have b3: "fetched (snd (get_transcript_content (video_env refused) video_url world1))
       = fetched world1 @ [str ''LWMzyfvuehA'']"
    by (simp add: get_transcript_content_def get_transcript_content_try_def video_env_def
        stub_env_def list_index_def st_show_def refused_def str_def)
  have b4: "\<forall>c q. chain_invoke (video_env refused) c q = Inl refused"
    by (simp add: video_env_def stub_env_def)
  have b5: "fst (main_page (video_env refused) inputs0 world1) = Inr ()"
    by (simp add: main_page_def analysis_block_def video_env_def stub_env_def inputs0_def
        world1_def st_show_def refused_def SUGGESTED_QUESTIONS_def str_def)
  have b6: "content (snd (main_page (video_env refused) inputs0 world1)) \<noteq> []"
    by (simp add: main_page_def analysis_block_def video_env_def stub_env_def inputs0_def
        world1_def st_show_def refused_def SUGGESTED_QUESTIONS_def str_def)
  have b7: "\<forall>d. question_text inputs0 d \<noteq> []"
    by (simp add: inputs0_def str_def)
  have b8: "chain_invoke (video_env refused) (content world1)
          (if use_bullets inputs0
              \<and> \<not> contains (str ''bullet points'')
                    (lower (video_env refused) (str ''What is said about lists?''))
           then str ''What is said about lists?'' @ bullet_suffix
           else str ''What is said about lists?'') = Inl refused"
    by (simp add: video_env_def stub_env_def)
  have b9: "model_predict (raising_model refused)
              [[sepal_length flower0, sepal_width flower0, petal_length flower0,
                petal_width flower0]] () = (Inl refused, ())"
    by (simp add: raising_model_def)
  have b10: "model_predict (raising_model refused) (user_input_features sliders0) ()
               = (Inl refused, ())"
    by (simp add: raising_model_def)
  have c1: "model_predict (raising_proba_model refused) (user_input_features sliders0) ()
              = (Inr [0], ())"
    and c2: "model_predict_proba (raising_proba_model refused) (user_input_features sliders0) ()
              = (Inl refused, ())"
    by (simp_all add: raising_proba_model_def)
  have r1: "\<not> is_Exception interrupt"
    by (rule A [THEN conjunct1, THEN mp]) (rule a1)
  have r2: "get_transcript_content (video_env refused) video_url world1
       = (Inr [], world1\<lparr>fetched := fetched world1 @ [str ''LWMzyfvuehA''],
                          shown := shown world1 @ [Error (str ''Error getting transcript: ''
                                                         @ exn_str refused)]\<rparr>)"
    by (rule B [THEN conjunct2, THEN conjunct1, THEN mp]) (intro conjI b1 b2 b3)
  have r3: "\<not> is_Exception interrupt"
    by (rule A [THEN conjunct2, THEN conjunct2, THEN conjunct1, THEN mp]) (rule a3)
  have r4: "\<exists>pre. shown (snd (main_page (video_env refused) inputs0 world1))
         = pre @ [Error (str ''Error: '' @ exn_str refused),
                  Info (str ''Make sure Ollama is running with the correct model'')]"
    by (rule B [THEN conjunct2, THEN conjunct2, THEN conjunct2, THEN conjunct1, THEN mp])
      (intro conjI b4 b2 b5 b6 b7)
  have r5: "analysis_block (video_env refused) inputs0 (str ''What is said about lists?'') world1
       = (Inr (), st_show (Info (str ''Make sure Ollama is running with the correct model''))
                    (st_show (Error (str ''Error: '' @ exn_str refused)) world1))"
    by (rule B [THEN conjunct2, THEN conjunct2, THEN conjunct2, THEN conjunct2, THEN conjunct1,
          THEN mp])
      (intro conjI b8 b2)
  have r6: "predict (raising_model refused) flower0 ()
       = (Inl (HTTPException 500 (exn_str refused)), ())"
    by (rule B [THEN conjunct2, THEN conjunct2, THEN conjunct2, THEN conjunct2, THEN conjunct2,
          THEN conjunct1, THEN mp])
      (intro conjI b9 b2)
  have r7: "fst (iris_streamlit_app (raising_model refused) sliders0 ()) = Inl refused"
    by (rule B [THEN conjunct2, THEN conjunct2, THEN conjunct2, THEN conjunct2, THEN conjunct2,
          THEN conjunct2, THEN conjunct1, THEN mp])
      (rule b10)
  have r8: "fst (iris_streamlit_app (raising_proba_model refused) sliders0 ()) = Inl refused"
    by (rule C [THEN conjunct2, THEN conjunct2, THEN conjunct2, THEN conjunct2, THEN conjunct2,
          THEN conjunct2, THEN conjunct2, THEN mp])
      (intro conjI c1 c2)
  show ?thesis
    using a1 r1 b1 b2 b3 r2 a3 b4 b5 b6 b7 r4 r5 r6 r7 r8 by (intro conjI)
qed

text \<open>
  Stated of all four scripts the property fails on the Streamlit classifier script: an
  exception deriving from \<open>Exception\<close> that \<open>model.predict\<close> raises leaves it.
\<close>

theorem handlers_surface_exceptions_counterexample:
  "fst (iris_streamlit_app (raising_model refused) sliders0 ()) = Inl refused
   \<and> is_Exception refused"
  by (simp add: iris_streamlit_app_def raising_model_def refused_def Let_def)


end
